theory Spec2Isabelle
  imports Complex_Main "HOL-Library.Word"
begin

section \<open>Regenerate\_annotations.py: the frame-window sampler and motion compositor\<close>

text \<open>
  A shallow embedding of \<^verbatim>\<open>load_config\<close> and \<^verbatim>\<open>generate_base_images\<close> of
  \<^verbatim>\<open>src/Regenerate_annotations.py\<close>. Python integers are \<open>int\<close>. Python floats are
  idealised as real numbers: a float literal and a converted text stand for the number
  their decimal notation denotes, and arithmetic is exact (NaN, infinities and the
  rounding of binary floats are outside the model). The exceptions of the two functions
  are values \<open>Inl e\<close> of the result: the \<^verbatim>\<open>KeyError\<close> and \<^verbatim>\<open>ValueError\<close> of \<^verbatim>\<open>load_config\<close>, the
  \<^verbatim>\<open>ZeroDivisionError\<close> of \<^verbatim>\<open>read_count % step\<close>, the \<^verbatim>\<open>cv2.error\<close> of \<^verbatim>\<open>cv2.resize\<close> and the
  \<^verbatim>\<open>IndexError\<close> of \<^verbatim>\<open>rgb_multipliers[i]\<close>. Errors of \<^verbatim>\<open>configparser\<close> on a malformed file and
  of \<^verbatim>\<open>cv2.cvtColor\<close> on a decoded frame are outside the model.
\<close>

subsection \<open>Exceptions\<close>

datatype error =
    KeyError string      \<comment> \<open>a missing configuration option\<close>
  | ValueError           \<comment> \<open>\<^verbatim>\<open>float(..)\<close> or \<^verbatim>\<open>int(..)\<close> on text that is not a number\<close>
  | ZeroDivisionError    \<comment> \<open>\<^verbatim>\<open>read_count % step\<close> with \<^verbatim>\<open>step == 0\<close>\<close>
  | IndexError           \<comment> \<open>\<^verbatim>\<open>params['rgb_multipliers'][i]\<close> out of range\<close>
  | CvError              \<comment> \<open>\<^verbatim>\<open>cv2.error\<close>: a resize OpenCV rejects, or a call on \<^verbatim>\<open>None\<close>\<close>

definition and_then :: "error + 'a \<Rightarrow> ('a \<Rightarrow> error + 'b) \<Rightarrow> error + 'b" where
  "and_then m f = (case m of Inl e \<Rightarrow> Inl e | Inr x \<Rightarrow> f x)"

subsection \<open>Images and the OpenCV operations the code calls\<close>

text \<open>
  A pixel sample is an unsigned byte. An image over the pixel positions \<open>'p\<close> gives one
  sample (grayscale) or a blue, green, red triple of samples to every position. All
  frames of one capture have the same geometry, so the per-element operations of OpenCV
  are total on them.
\<close>

type_synonym pixel = "8 word"
type_synonym 'p gray_image = "'p \<Rightarrow> pixel"
type_synonym 'p bgr_image = "'p \<Rightarrow> pixel \<times> pixel \<times> pixel"

text \<open>\<^verbatim>\<open>cvRound\<close>: to the nearest integer, a tie to the even one.\<close>

definition cvRound :: "real \<Rightarrow> int" where
  "cvRound x =
     (let f = \<lfloor>x\<rfloor>; d = x - of_int f
      in if d < 1 / 2 then f
         else if 1 / 2 < d then f + 1
         else if even f then f else f + 1)"

text \<open>\<^verbatim>\<open>saturate_cast<uchar>\<close>: round, then clamp to 0..255.\<close>

definition saturate8 :: "real \<Rightarrow> pixel" where
  "saturate8 x = word_of_int (max 0 (min 255 (cvRound x)))"

definition px :: "pixel \<Rightarrow> real" where
  "px a = real (unat a)"

definition absdiff :: "'p gray_image \<Rightarrow> 'p gray_image \<Rightarrow> 'p gray_image" where
  "absdiff a b = (\<lambda>i. if a i \<le> b i then b i - a i else a i - b i)"

text \<open>\<^verbatim>\<open>cv2.subtract\<close> on 8-bit images saturates: a negative difference is 0.\<close>

definition subtract :: "'p gray_image \<Rightarrow> 'p gray_image \<Rightarrow> 'p gray_image" where
  "subtract a b = (\<lambda>i. if b i \<le> a i then a i - b i else 0)"

definition addWeighted ::
  "'p gray_image \<Rightarrow> real \<Rightarrow> 'p gray_image \<Rightarrow> real \<Rightarrow> real \<Rightarrow> 'p gray_image" where
  "addWeighted src1 alpha src2 beta gamma =
     (\<lambda>i. saturate8 (px (src1 i) * alpha + px (src2 i) * beta + gamma))"

definition merge :: "'p gray_image \<Rightarrow> 'p gray_image \<Rightarrow> 'p gray_image \<Rightarrow> 'p bgr_image" where
  "merge b g r = (\<lambda>i. (b i, g i, r i))"

subsection \<open>\<^verbatim>\<open>load_config\<close>\<close>

record params =
  scale_factor :: real
  expA :: real
  expB :: real
  strategy :: string
  chromatic_tail_only :: string
  lum_weight :: real
  rgb_multipliers :: "real list"
  frame_skip :: int
  motion_threshold :: int
  motion_blocks_static :: string
  static_blocks_motion :: string
  save_empty_frames :: string
  base_frame_window :: int
  frame_window :: int

text \<open>
  The \<^verbatim>\<open>DEFAULT\<close> section of the parsed file is a map from option names to their text.
  \<^verbatim>\<open>section.get(key, fallback)\<close>:
\<close>

definition get :: "(string \<rightharpoonup> string) \<Rightarrow> string \<Rightarrow> string \<Rightarrow> string" where
  "get section k fallback = (case section k of None \<Rightarrow> fallback | Some v \<Rightarrow> v)"

text \<open>
  Python's \<^verbatim>\<open>float\<close> and \<^verbatim>\<open>int\<close> on text are parameters \<open>float_of\<close> and \<open>int_of\<close> of
  the model (\<open>None\<close> where Python raises \<^verbatim>\<open>ValueError\<close>).
\<close>

definition convert :: "(string \<Rightarrow> 'a option) \<Rightarrow> string \<Rightarrow> error + 'a" where
  "convert f s = (case f s of None \<Rightarrow> Inl ValueError | Some x \<Rightarrow> Inr x)"

fun convert_all :: "(string \<Rightarrow> 'a option) \<Rightarrow> string list \<Rightarrow> error + 'a list" where
  "convert_all f [] = Inr []"
| "convert_all f (s # ss) =
     and_then (convert f s) (\<lambda>x. and_then (convert_all f ss) (\<lambda>xs. Inr (x # xs)))"

text \<open>\<^verbatim>\<open>s.split(',')\<close>: the fields between the separators, empty ones kept.\<close>

fun split :: "char \<Rightarrow> string \<Rightarrow> string list" where
  "split sep [] = [[]]"
| "split sep (c # cs) =
     (if c = sep then [] # split sep cs
      else (case split sep cs of [] \<Rightarrow> [[c]] | w # ws \<Rightarrow> (c # w) # ws))"

text \<open>\<^verbatim>\<open>s.lower()\<close> on ASCII text.\<close>

definition lower_char :: "char \<Rightarrow> char" where
  "lower_char c =
     (let n = (of_char c :: nat) in if 65 \<le> n \<and> n \<le> 90 then char_of (n + 32) else c)"

definition lower :: "string \<Rightarrow> string" where
  "lower s = map lower_char s"

text \<open>Lines 30 to 42: the number of sampled frames.\<close>

definition base_window_of :: "string \<Rightarrow> real \<Rightarrow> real \<Rightarrow> int" where
  "base_window_of strat a b =
     (let base_window = 4 in
      if strat = ''exponential'' then
        let base_window = (if a > 0.2 \<or> b > 0.2 then 5 else base_window);
            base_window = (if a > 0.5 \<or> b > 0.5 then 10 else base_window);
            base_window = (if a > 0.7 \<or> b > 0.7 then 15 else base_window);
            base_window = (if a > 0.8 \<or> b > 0.8 then 20 else base_window);
            base_window = (if a > 0.9 \<or> b > 0.9 then 45 else base_window)
        in base_window
      else base_window)"

definition load_config ::
  "(string \<Rightarrow> real option) \<Rightarrow> (string \<Rightarrow> int option) \<Rightarrow> (string \<rightharpoonup> string) \<Rightarrow> error + params" where
  "load_config float_of int_of config =
     and_then (convert float_of (get config ''scale_factor'' ''1.0'')) (\<lambda>sf.
     and_then (convert float_of (get config ''expA'' ''0.5'')) (\<lambda>a.
     and_then (convert float_of (get config ''expB'' ''0.8'')) (\<lambda>b.
     let strat = get config ''strategy'' ''exponential'';
         cto = lower (get config ''chromatic_tail_only'' ''false'')
     in
     and_then (convert float_of (get config ''lum_weight'' ''0.7'')) (\<lambda>lw.
     and_then (case config ''rgb_multipliers'' of
                 None \<Rightarrow> Inl (KeyError ''rgb_multipliers'')
               | Some s \<Rightarrow> convert_all float_of (split CHR '','' s)) (\<lambda>rgb.
     and_then (convert int_of (get config ''frame_skip'' ''0'')) (\<lambda>fs.
     and_then (convert int_of (get config ''motion_threshold'' ''0'')) (\<lambda>mt.
     let mbs = lower (get config ''motion_blocks_static'' ''false'');
         sbm = lower (get config ''static_blocks_motion'' ''false'');
         sef = lower (get config ''save_empty_frames'' ''false'');
         base_window = base_window_of strat a b
     in Inr \<lparr> scale_factor = sf, expA = a, expB = b, strategy = strat,
              chromatic_tail_only = cto, lum_weight = lw, rgb_multipliers = rgb,
              frame_skip = fs, motion_threshold = - 1 * mt,
              motion_blocks_static = mbs, static_blocks_motion = sbm,
              save_empty_frames = sef,
              base_frame_window = base_window,
              frame_window = base_window * (fs + 1) \<rparr>)))))))"

subsection \<open>The capture\<close>

text \<open>
  \<^verbatim>\<open>cv2.VideoCapture(video_path)\<close> is a capture that may have failed to open, the frame
  count it reports and the frames it can decode, in order. After
  \<^verbatim>\<open>cap.set(cv2.CAP_PROP_POS_FRAMES, i)\<close> the next \<^verbatim>\<open>cap.read()\<close> decodes frame \<open>i\<close> and
  every further one the frame after; a read past the decodable frames returns
  \<^verbatim>\<open>(False, None)\<close>.
\<close>

record 'f video =
  isOpened :: bool
  frame_count :: int
  frames :: "'f list"

definition cap_read :: "'f video \<Rightarrow> int \<Rightarrow> 'f option" where
  "cap_read cap pos =
     (if 0 \<le> pos \<and> pos < int (length (frames cap)) then Some (frames cap ! nat pos) else None)"

subsection \<open>Lines 87 to 105: the reading loop\<close>

text \<open>
  The loop variables. \<open>attempts\<close> is not a variable of the source: it counts the calls of
  \<^verbatim>\<open>cap.read()\<close>, the failed one included.
\<close>

record 'f reader =
  collected :: "'f list"
  read_count :: int
  idx :: int
  attempts :: nat

text \<open>
  \<open>resize s f\<close> is \<^verbatim>\<open>cv2.resize(f, None, fx=s, fy=s)\<close>, a parameter of the model: \<open>Some\<close> of
  the resized frame, or \<open>None\<close> where OpenCV raises \<^verbatim>\<open>cv2.error\<close> (a factor that is not
  positive, or one that leaves an empty image).
  Lines 98 to 100: the frame that is appended.
\<close>

definition scaled :: "(real \<Rightarrow> 'f \<Rightarrow> 'f option) \<Rightarrow> params \<Rightarrow> 'f \<Rightarrow> error + 'f" where
  "scaled resize p frame =
     (if scale_factor p \<noteq> 1.0 then
        (case resize (scale_factor p) frame of None \<Rightarrow> Inl CvError | Some f \<Rightarrow> Inr f)
      else Inr frame)"

text \<open>Lines 97 to 102, after a successful read, for \<open>step \<noteq> 0\<close>.\<close>

definition read_step ::
  "(real \<Rightarrow> 'f \<Rightarrow> 'f option) \<Rightarrow> params \<Rightarrow> int \<Rightarrow> 'f \<Rightarrow> 'f reader \<Rightarrow> error + 'f reader" where
  "read_step resize p step frame r =
     and_then (if read_count r mod step = 0
               then and_then (scaled resize p frame)
                      (\<lambda>f. Inr (r\<lparr>collected := collected r @ [f]\<rparr>))
               else Inr r)
       (\<lambda>r1. Inr (r1\<lparr>read_count := read_count r1 + 1, idx := idx r1 + 1,
                       attempts := attempts r1 + 1\<rparr>))"

function read_loop ::
  "(real \<Rightarrow> 'f \<Rightarrow> 'f option) \<Rightarrow> 'f video \<Rightarrow> params \<Rightarrow> int \<Rightarrow> int \<Rightarrow> int \<Rightarrow> 'f reader \<Rightarrow> error + 'f reader" where
  "read_loop resize cap p step base_N total_frames r =
     (if int (length (collected r)) < base_N \<and> idx r \<le> total_frames - 1 then
        (case cap_read cap (idx r) of
           None \<Rightarrow> Inr (r\<lparr>attempts := attempts r + 1\<rparr>)
         | Some frame \<Rightarrow>
             if step = 0 then Inl ZeroDivisionError
             else
               (case read_step resize p step frame r of
                  Inl e \<Rightarrow> Inl e
                | Inr r2 \<Rightarrow>
                    if read_count r2 > frame_window p + 10 then Inr r2
                    else read_loop resize cap p step base_N total_frames r2))
      else Inr r)"
  by pat_completeness auto
termination
  by (relation "measure (\<lambda>(resize, cap, p, step, base_N, total_frames, r). nat (total_frames - idx r))")
     (auto simp: read_step_def and_then_def split: if_splits sum.splits)

definition start_frame_of :: "int \<Rightarrow> params \<Rightarrow> int" where
  "start_frame_of frame_num p =
     (let step = frame_skip p + 1;
          base_N = base_frame_window p;
          start_frame = frame_num - (base_N - 1) * step
      in max 0 start_frame)"

definition read_frames ::
  "(real \<Rightarrow> 'f \<Rightarrow> 'f option) \<Rightarrow> 'f video \<Rightarrow> int \<Rightarrow> params \<Rightarrow> error + 'f reader" where
  "read_frames resize cap frame_num p =
     read_loop resize cap p (frame_skip p + 1) (base_frame_window p) (frame_count cap)
       \<lparr>collected = [], read_count = 0, idx = start_frame_of frame_num p, attempts = 0\<rparr>"

subsection \<open>Lines 116 to 150: the three references and the diffs\<close>

record ('f, 'p) engine =
  static_img :: "'f option"
  prev_frames :: "('p gray_image \<times> 'p gray_image \<times> 'p gray_image) option"
  diffs :: "('p gray_image \<times> 'p gray_image \<times> 'p gray_image) option"
  gray :: "'p gray_image option"

text \<open>
  \<open>prev_frames = None\<close> is the list \<^verbatim>\<open>[None] * 3\<close> of line 116, and \<open>Some (r0, r1, r2)\<close> the
  list \<^verbatim>\<open>[r0, r1, r2]\<close>.
\<close>

definition engine_init :: "('f, 'p) engine" where
  "engine_init = \<lparr>static_img = None, prev_frames = None, diffs = None, gray = None\<rparr>"

text \<open>Lines 139 to 146. Any other strategy text leaves the references as they are.\<close>

definition update_prev_frames ::
  "params \<Rightarrow> 'p gray_image \<times> 'p gray_image \<times> 'p gray_image \<Rightarrow> 'p gray_image \<Rightarrow>
   'p gray_image \<times> 'p gray_image \<times> 'p gray_image" where
  "update_prev_frames p refs g =
     (case refs of (r0, r1, r2) \<Rightarrow>
        if strategy p = ''exponential'' then
          (g, addWeighted r1 (expA p) g (1 - expA p) 0, addWeighted r2 (expB p) g (1 - expB p) 0)
        else if strategy p = ''sequential'' then
          (g, r0, r1)
        else (r0, r1, r2))"

text \<open>
  One iteration of the loop of line 121; \<open>cvtColor f\<close> is
  \<^verbatim>\<open>cv2.cvtColor(f, cv2.COLOR_BGR2GRAY)\<close>, a parameter of the model. The collected frames
  are copies of decoded frames, none of them \<^verbatim>\<open>None\<close>.
\<close>

definition process_frame ::
  "('f \<Rightarrow> 'p gray_image) \<Rightarrow> params \<Rightarrow> ('f, 'p) engine \<Rightarrow> 'f \<Rightarrow> error + ('f, 'p) engine" where
  "process_frame cvtColor p e f =
     (let g = cvtColor f in
      case static_img e of
        None \<Rightarrow> Inr (e\<lparr>static_img := Some f, prev_frames := Some (g, g, g), gray := Some g\<rparr>)
      | Some _ \<Rightarrow>
          (case prev_frames e of
             None \<Rightarrow> Inl CvError
           | Some (r0, r1, r2) \<Rightarrow>
               let current_diffs = (absdiff r0 g, absdiff r1 g, absdiff r2 g)
               in Inr (e\<lparr>static_img := Some f,
                         prev_frames := Some (update_prev_frames p (r0, r1, r2) g),
                         diffs := Some current_diffs,
                         gray := Some g\<rparr>)))"

fun process_frames ::
  "('f \<Rightarrow> 'p gray_image) \<Rightarrow> params \<Rightarrow> ('f, 'p) engine \<Rightarrow> 'f list \<Rightarrow> error + ('f, 'p) engine" where
  "process_frames cvtColor p e [] = Inr e"
| "process_frames cvtColor p e (f # fs) =
     and_then (process_frame cvtColor p e f) (\<lambda>e'. process_frames cvtColor p e' fs)"

subsection \<open>Lines 159 to 173: the motion image\<close>

definition index :: "'a list \<Rightarrow> nat \<Rightarrow> error + 'a" where
  "index xs i = (if i < length xs then Inr (xs ! i) else Inl IndexError)"

definition blend ::
  "params \<Rightarrow> 'p gray_image \<Rightarrow> 'p gray_image \<Rightarrow> nat \<Rightarrow> error + 'p gray_image" where
  "blend p g src2 i =
     and_then (index (rgb_multipliers p) i)
       (\<lambda>m. Inr (addWeighted g (lum_weight p) src2 m (of_int (motion_threshold p))))"

definition motion_image ::
  "params \<Rightarrow> 'p gray_image \<times> 'p gray_image \<times> 'p gray_image \<Rightarrow> 'p gray_image \<Rightarrow>
   error + 'p bgr_image" where
  "motion_image p ds g =
     (case ds of (d0, d1, d2) \<Rightarrow>
        if chromatic_tail_only p = ''true'' then
          let tb = subtract d0 d1;
              tr = subtract d2 d1;
              tg = subtract d1 d0
          in and_then (blend p g tb 2) (\<lambda>blue.
             and_then (blend p g tg 1) (\<lambda>green.
             and_then (blend p g tr 0) (\<lambda>red.
             Inr (merge blue green red))))
        else
          and_then (blend p g d0 2) (\<lambda>blue.
          and_then (blend p g d1 1) (\<lambda>green.
          and_then (blend p g d2 0) (\<lambda>red.
          Inr (merge blue green red)))))"

subsection \<open>\<^verbatim>\<open>generate_base_images\<close>\<close>

text \<open>
  The result \<open>Inr (None, None)\<close> is the pair \<^verbatim>\<open>None, None\<close> of the source, and
  \<open>Inr (Some s, Some m)\<close> the pair of the static and the motion image.
\<close>

definition generate_base_images ::
  "(real \<Rightarrow> 'f \<Rightarrow> 'f option) \<Rightarrow> ('f \<Rightarrow> 'p gray_image) \<Rightarrow> 'f video \<Rightarrow> int \<Rightarrow> params \<Rightarrow>
   error + ('f option \<times> 'p bgr_image option)" where
  "generate_base_images resize cvtColor cap frame_num p =
     (if \<not> isOpened cap then Inr (None, None)
      else
        let total_frames = frame_count cap in
        if total_frames \<le> 0 then Inr (None, None)
        else
          let start_frame = start_frame_of frame_num p in
          if start_frame > total_frames - 1 then Inr (None, None)
          else
            and_then (read_frames resize cap frame_num p) (\<lambda>r.
            if collected r = [] then Inr (None, None)
            else
              and_then (process_frames cvtColor p engine_init (collected r)) (\<lambda>e.
              case diffs e of
                None \<Rightarrow> Inr (None, None)
              | Some ds \<Rightarrow>
                  (case gray e of
                     None \<Rightarrow> Inr (None, None)
                   | Some g \<Rightarrow>
                       and_then (motion_image p ds g)
                         (\<lambda>motion_img. Inr (static_img e, Some motion_img))))))"

subsection \<open>The invariant of the reading loop\<close>

text \<open>
  After \<open>read_count\<close> successful reads from \<open>start\<close>: the position, the retained frames
  (those at the offsets below \<open>read_count\<close> that are multiples of \<open>step\<close>), and the bounds
  that relate \<open>read_count\<close> to the number of retained frames.
\<close>

definition read_inv ::
  "(real \<Rightarrow> 'f \<Rightarrow> 'f option) \<Rightarrow> 'f video \<Rightarrow> params \<Rightarrow> int \<Rightarrow> int \<Rightarrow> int \<Rightarrow> int \<Rightarrow> 'f reader \<Rightarrow> bool" where
  "read_inv resize cap p step base_N total_frames start r \<longleftrightarrow>
     0 \<le> read_count r \<and> idx r = start + read_count r \<and>
     map Inr (collected r) =
       map (\<lambda>k. scaled resize p (frames cap ! (nat start + k)))
         (filter (\<lambda>k. int k mod step = 0) [0..<nat (read_count r)]) \<and>
     (read_count r = 0 \<or> start + read_count r \<le> min total_frames (int (length (frames cap)))) \<and>
     int (length (collected r)) * step - step < read_count r \<and>
     read_count r \<le> int (length (collected r)) * step \<and>
     read_count r \<le> max 0 ((base_N - 1) * step + 1)"

subsection \<open>A configuration, a capture and a grayscale conversion to evaluate on\<close>

text \<open>
  A ten-frame capture whose frames are numbers, a conversion that makes frame \<open>f\<close> the
  one-pixel image of value \<open>f\<close>, and a configuration with \<^verbatim>\<open>strategy = sequential\<close>,
  \<^verbatim>\<open>frame_skip = 1\<close>, \<^verbatim>\<open>motion_threshold = 2\<close> and the conversions of its numbers.
\<close>

definition float_ex :: "string \<Rightarrow> real option" where
  "float_ex = map_of [(''1.0'', 1), (''0.5'', 1 / 2), (''0.8'', 8 / 10), (''0.7'', 7 / 10),
                      (''0.95'', 95 / 100), (''1'', 1), (''2'', 2), (''3'', 3)]"

definition int_ex :: "string \<Rightarrow> int option" where
  "int_ex = map_of [(''0'', 0), (''1'', 1), (''2'', 2)]"

definition config_ex :: "string \<rightharpoonup> string" where
  "config_ex = [''rgb_multipliers'' \<mapsto> ''1,2,3'', ''strategy'' \<mapsto> ''sequential'',
                ''lum_weight'' \<mapsto> ''1'', ''frame_skip'' \<mapsto> ''1'', ''motion_threshold'' \<mapsto> ''2'']"

definition params_ex :: params where
  "params_ex = \<lparr> scale_factor = 1, expA = 1 / 2, expB = 8 / 10, strategy = ''sequential'',
                  chromatic_tail_only = ''false'', lum_weight = 1, rgb_multipliers = [1, 2, 3],
                  frame_skip = 1, motion_threshold = - 2,
                  motion_blocks_static = ''false'', static_blocks_motion = ''false'',
                  save_empty_frames = ''false'', base_frame_window = 4, frame_window = 8 \<rparr>"

definition cap_ex :: "nat video" where
  "cap_ex = \<lparr>isOpened = True, frame_count = 10, frames = [0, 10, 20, 30, 40, 50, 60, 70, 80, 90]\<rparr>"

definition cvt_ex :: "nat \<Rightarrow> unit gray_image" where
  "cvt_ex f = (\<lambda>i. of_nat f)"

definition resize_ex :: "real \<Rightarrow> nat \<Rightarrow> nat option" where
  "resize_ex s f = Some f"

text \<open>
  Frames with a size: rows, columns and the value of every sample. \<^verbatim>\<open>cv2.resize\<close> with
  factors only computes the target size by rounding \<open>s * cols\<close> and \<open>s * rows\<close>, and raises
  when the factor is not positive or the target size is empty.
\<close>

definition resize_sized :: "real \<Rightarrow> nat \<times> nat \<times> nat \<Rightarrow> (nat \<times> nat \<times> nat) option" where
  "resize_sized s f =
     (case f of (rows, cols, v) \<Rightarrow>
        let h = cvRound (s * real rows); w = cvRound (s * real cols)
        in if s \<le> 0 \<or> h \<le> 0 \<or> w \<le> 0 then None else Some (nat h, nat w, v))"

definition cvt_sized :: "nat \<times> nat \<times> nat \<Rightarrow> unit gray_image" where
  "cvt_sized f = (case f of (rows, cols, v) \<Rightarrow> (\<lambda>i. of_nat v))"

definition cap_sized :: "(nat \<times> nat \<times> nat) video" where
  "cap_sized = \<lparr>isOpened = True, frame_count = 10,
                 frames = [(4, 4, 0), (4, 4, 10), (4, 4, 20), (4, 4, 30), (4, 4, 40),
                           (4, 4, 50), (4, 4, 60), (4, 4, 70), (4, 4, 80), (4, 4, 90)]\<rparr>"

section \<open>Properties\<close>

subsection \<open>Sequencing, rounding and the configuration\<close>

lemma and_then_Inr_iff:
  "and_then m f = Inr y \<longleftrightarrow> (\<exists>x. m = Inr x \<and> f x = Inr y)"
  by (cases m) (simp_all add: and_then_def)

lemma and_then_Inr [simp]: "and_then (Inr x) f = f x"
  by (simp add: and_then_def)

lemma and_then_Inl [simp]: "and_then (Inl e) f = Inl e"
  by (simp add: and_then_def)

lemma base_window_of_cases:
  "base_window_of s a b =
     (if s = ''exponential'' then
        (if 0.9 < max a b then 45 else if 0.8 < max a b then 20 else if 0.7 < max a b then 15
         else if 0.5 < max a b then 10 else if 0.2 < max a b then 5 else 4)
      else 4)"
  by (auto simp: base_window_of_def Let_def max_def)

lemma base_window_of_mono:
  assumes "max a b \<le> max a' b'"
  shows "base_window_of ''exponential'' a b \<le> base_window_of ''exponential'' a' b'"
proof -
  define m where "m = max a b"
  define m' where "m' = max a' b'"
  have "m \<le> m'" using assms by (simp add: m_def m'_def)
  then show ?thesis
    unfolding base_window_of_cases m_def [symmetric] m'_def [symmetric] by auto
qed

lemma cvRound_of_int: "cvRound (of_int n) = n"
  by (simp add: cvRound_def)

lemma saturate8_px: "saturate8 (px a) = a"
proof -
  have "px a = of_int (uint a)" by (simp add: px_def)
  then have "cvRound (px a) = uint a" by (simp only: cvRound_of_int)
  moreover have "0 \<le> uint a" "uint a \<le> 255"
    using uint_bounded [of a] by simp_all
  ultimately show ?thesis
    by (simp add: saturate8_def)
qed

lemma addWeighted_zero_one: "addWeighted r 0 g 1 0 = g"
  by (simp add: addWeighted_def saturate8_px)

lemma addWeighted_one_zero: "addWeighted r 1 g 0 0 = r"
  by (simp add: addWeighted_def saturate8_px)

lemma process_frames_append:
  "process_frames c p e (xs @ ys) = and_then (process_frames c p e xs) (\<lambda>e'. process_frames c p e' ys)"
  by (induction xs arbitrary: e) (auto simp: and_then_def split: sum.splits)

lemma process_frame_first:
  "process_frame c p engine_init f =
     Inr \<lparr>static_img = Some f, prev_frames = Some (c f, c f, c f), diffs = None, gray = Some (c f)\<rparr>"
  by (simp add: process_frame_def engine_init_def Let_def)

lemma process_frame_next:
  assumes "static_img e = Some s" and "prev_frames e = Some (r0, r1, r2)"
  shows "process_frame c p e f =
     Inr \<lparr>static_img = Some f, prev_frames = Some (update_prev_frames p (r0, r1, r2) (c f)),
          diffs = Some (absdiff r0 (c f), absdiff r1 (c f), absdiff r2 (c f)),
          gray = Some (c f)\<rparr>"
  using assms by (simp add: process_frame_def Let_def)

lemma process_frames_nonempty:
  assumes "fs \<noteq> []"
  shows "\<exists>e. process_frames c p engine_init fs = Inr e \<and> static_img e = Some (last fs) \<and>
           gray e = Some (c (last fs)) \<and> prev_frames e \<noteq> None \<and>
           (diffs e = None \<longleftrightarrow> length fs = 1)"
  using assms
proof (induction fs rule: rev_induct)
  case Nil
  then show ?case by simp
next
  case (snoc f fs)
  show ?case
  proof (cases "fs = []")
    case True
    then show ?thesis by (simp add: process_frame_first)
  next
    case False
    with snoc.IH obtain e where e: "process_frames c p engine_init fs = Inr e"
      "static_img e = Some (last fs)" "prev_frames e \<noteq> None" by blast
    then obtain r0 r1 r2 where refs: "prev_frames e = Some (r0, r1, r2)"
      by (cases "prev_frames e") auto
    show ?thesis
      using False e process_frame_next [of e "last fs" r0 r1 r2 c p f]
      by (simp add: process_frames_append refs) (metis prod_cases3)
  qed
qed

lemma sequential_refs:
  assumes "strategy p = ''sequential''" and "fs \<noteq> []"
  shows "\<exists>e. process_frames c p engine_init fs = Inr e \<and>
           prev_frames e = Some (c (fs ! (length fs - 1)), c (fs ! (length fs - 2)), c (fs ! (length fs - 3)))
           \<and> static_img e = Some (last fs)"
  using assms(2)
proof (induction fs rule: rev_induct)
  case Nil
  then show ?case by simp
next
  case (snoc f fs)
  show ?case
  proof (cases "fs = []")
    case True
    then show ?thesis by (simp add: process_frame_first)
  next
    case False
    with snoc.IH obtain e where e: "process_frames c p engine_init fs = Inr e"
      "static_img e = Some (last fs)"
      "prev_frames e = Some (c (fs ! (length fs - 1)), c (fs ! (length fs - 2)), c (fs ! (length fs - 3)))"
      by blast
    have n: "0 < length fs" using False by simp
    have i1: "(fs @ [f]) ! (length fs - 1) = fs ! (length fs - 1)"
      using n by (simp add: nth_append)
    have i2: "(fs @ [f]) ! (length fs - 2) = fs ! (length fs - 2)"
      using n by (simp add: nth_append)
    have upd: "update_prev_frames p (r0, r1, r2) g = (g, r0, r1)" for r0 r1 r2 and g :: "'b gray_image"
      using assms(1) by (simp add: update_prev_frames_def)
    show ?thesis
      using e process_frame_next [OF e(2) e(3), of c p f] i1 i2
      by (simp add: process_frames_append upd Suc_diff_Suc numeral_2_eq_2 numeral_3_eq_3)
  qed
qed

subsection \<open>The reading loop\<close>

lemma read_step_Inr:
  assumes "read_step resize p step frame r = Inr r2"
  shows "read_count r2 = read_count r + 1" and "idx r2 = idx r + 1"
    and "attempts r2 = attempts r + 1"
    and "map Inr (collected r2) =
           (if read_count r mod step = 0 then map Inr (collected r) @ [scaled resize p frame]
            else map Inr (collected r))"
    and "int (length (collected r2)) =
           (if read_count r mod step = 0 then int (length (collected r)) + 1
            else int (length (collected r)))"
  using assms
  by (auto simp: read_step_def and_then_def split: if_splits sum.splits)

lemma read_step_Inl:
  assumes "read_step resize p step frame r = Inl e"
  shows "e = CvError \<and> read_count r mod step = 0 \<and> scaled resize p frame = Inl CvError"
  using assms
  by (auto simp: read_step_def and_then_def scaled_def split: if_splits sum.splits option.splits)

lemma multiple_in_window:
  fixes rc c step :: int
  assumes "1 \<le> step" and "c * step - step < rc" and "rc \<le> c * step" and "rc mod step = 0"
  shows "rc = c * step"
proof -
  from assms(4) obtain q where q: "rc = q * step"
    by (metis dvd_def mod_eq_0_iff_dvd mult.commute)
  have "(c - 1) * step < q * step" using assms(2) q by (simp add: algebra_simps)
  then have "c - 1 < q" using assms(1) by (simp add: mult_less_cancel_right)
  moreover have "q * step \<le> c * step" using assms(3) q by simp
  then have "q \<le> c" using assms(1) by (simp add: mult_le_cancel_right)
  ultimately show ?thesis using q by simp
qed

lemma read_step_inv:
  assumes inv: "read_inv resize cap p step base_N total_frames start r"
    and step: "1 \<le> step" and start: "0 \<le> start"
    and cond: "int (length (collected r)) < base_N" "idx r \<le> total_frames - 1"
    and rd: "cap_read cap (idx r) = Some frame"
    and rs: "read_step resize p step frame r = Inr r2"
  shows "read_inv resize cap p step base_N total_frames start r2"
proof -
  let ?c = "int (length (collected r))"
  let ?rc = "read_count r"
  let ?g = "\<lambda>k. scaled resize p (frames cap ! (nat start + k))"
  let ?m = "\<lambda>k. int k mod step = 0"
  note f = read_step_Inr [OF rs]
  from inv have rc0: "0 \<le> ?rc" and idx: "idx r = start + ?rc"
    and coll: "map Inr (collected r) = map ?g (filter ?m [0..<nat ?rc])"
    and lo: "?c * step - step < ?rc" and hi: "?rc \<le> ?c * step"
    unfolding read_inv_def by blast+
  from rd have inb: "idx r < int (length (frames cap))" and fr: "frame = frames cap ! nat (idx r)"
    by (auto simp: cap_read_def split: if_splits)
  have nidx: "nat (idx r) = nat start + nat ?rc"
    using idx rc0 start by (simp add: nat_add_distrib)
  have up: "[0..<nat (?rc + 1)] = [0..<nat ?rc] @ [nat ?rc]"
    using rc0 by (simp add: nat_add_distrib)
  have cle: "?c * step \<le> (base_N - 1) * step"
    using cond(1) step by (intro mult_right_mono) auto
  have i1: "0 \<le> read_count r2" using rc0 by (simp add: f(1))
  have i2: "idx r2 = start + read_count r2" using idx by (simp add: f(1,2))
  have i4: "start + read_count r2 \<le> min total_frames (int (length (frames cap)))"
    using idx inb cond(2) by (simp add: f(1))
  have i7: "read_count r2 \<le> max 0 ((base_N - 1) * step + 1)"
    using hi cle by (simp add: f(1))
  have i3: "map Inr (collected r2) = map ?g (filter ?m [0..<nat (read_count r2)])"
  proof (cases "?rc mod step = 0")
    case True
    have "map Inr (collected r2) = map Inr (collected r) @ [?g (nat ?rc)]"
      using True by (simp add: f(4) fr nidx)
    also have "\<dots> = map ?g (filter ?m [0..<nat ?rc] @ [nat ?rc])"
      using coll by simp
    also have "filter ?m [0..<nat ?rc] @ [nat ?rc] = filter ?m [0..<nat (?rc + 1)]"
      using True rc0 by (simp add: up)
    finally show ?thesis by (simp add: f(1))
  next
    case False
    have "map Inr (collected r2) = map ?g (filter ?m [0..<nat ?rc])"
      using False coll by (simp add: f(4))
    also have "filter ?m [0..<nat ?rc] = filter ?m [0..<nat (?rc + 1)]"
      using False rc0 by (simp add: up)
    finally show ?thesis by (simp add: f(1))
  qed
  have rc2: "read_count r2 = ?rc + 1" by (rule f(1))
  have i56: "int (length (collected r2)) * step - step < read_count r2 \<and>
             read_count r2 \<le> int (length (collected r2)) * step"
  proof (cases "?rc mod step = 0")
    case True
    have eq: "?rc = ?c * step" using multiple_in_window [OF step lo hi True] .
    have len: "int (length (collected r2)) = ?c + 1"
      using True by (simp add: f(5))
    have "(?c + 1) * step = ?c * step + step" by (simp add: algebra_simps)
    then show ?thesis using eq step unfolding len rc2 by linarith
  next
    case False
    then have "?rc \<noteq> ?c * step" by auto
    with hi have lt: "?rc < ?c * step" by simp
    have len: "int (length (collected r2)) = ?c"
      using False by (simp add: f(5))
    show ?thesis using lt lo unfolding len rc2 by linarith
  qed
  show ?thesis
    unfolding read_inv_def using i1 i2 i3 i4 i56 i7 by blast
qed

declare read_loop.simps [simp del]

lemma read_inv_idx_nonneg:
  "read_inv resize cap p step base_N total_frames start r \<Longrightarrow> 0 \<le> start \<Longrightarrow> 0 \<le> idx r"
  by (simp add: read_inv_def)

lemma read_inv_attempts_update:
  "read_inv resize cap p step base_N total_frames start (r\<lparr>attempts := n\<rparr>) =
   read_inv resize cap p step base_N total_frames start r"
  by (simp add: read_inv_def)

text \<open>
  The loop returns with the invariant, or a resize of a frame at a retained offset
  raised.
\<close>

lemma read_loop_spec:
  "1 \<le> step \<Longrightarrow> 0 \<le> start \<Longrightarrow>
   read_inv resize cap p step base_N total_frames start r \<Longrightarrow>
   int (attempts r) = read_count r \<Longrightarrow>
   (\<exists>r'. read_loop resize cap p step base_N total_frames r = Inr r' \<and>
        read_inv resize cap p step base_N total_frames start r' \<and>
        int (attempts r') \<le> max 0 ((base_N - 1) * step + 1) \<and>
        (base_N \<le> int (length (collected r')) \<or>
         min total_frames (int (length (frames cap))) \<le> idx r' \<or>
         frame_window p + 10 < read_count r')) \<or>
   (read_loop resize cap p step base_N total_frames r = Inl CvError \<and>
    (\<exists>k. int k mod step = 0 \<and> nat start + k < length (frames cap) \<and>
         int k \<le> (base_N - 1) * step \<and>
         scaled resize p (frames cap ! (nat start + k)) = Inl CvError))"
proof (induction resize cap p step base_N total_frames r rule: read_loop.induct)
  case (1 resize cap p step base_N total_frames r)
  note step = "1.prems"(1) and start = "1.prems"(2) and inv = "1.prems"(3) and att = "1.prems"(4)
  let ?c = "int (length (collected r))"
  from inv have hi: "read_count r \<le> ?c * step"
    and top: "read_count r \<le> max 0 ((base_N - 1) * step + 1)"
    and rc0: "0 \<le> read_count r" and idx: "idx r = start + read_count r"
    unfolding read_inv_def by blast+
  show ?case
  proof (cases "?c < base_N \<and> idx r \<le> total_frames - 1")
    case False
    then have rl: "read_loop resize cap p step base_N total_frames r = Inr r"
      by (subst read_loop.simps) auto
    have "base_N \<le> ?c \<or> min total_frames (int (length (frames cap))) \<le> idx r"
      using False by auto
    then show ?thesis using rl inv att top by auto
  next
    case True
    then have c: "?c < base_N" and ix: "idx r \<le> total_frames - 1" by simp_all
    have cle: "?c * step \<le> (base_N - 1) * step"
      using c step by (intro mult_right_mono) auto
    show ?thesis
    proof (cases "cap_read cap (idx r)")
      case None
      then have rl: "read_loop resize cap p step base_N total_frames r = Inr (r\<lparr>attempts := attempts r + 1\<rparr>)"
        using True by (subst read_loop.simps) simp
      have "int (length (frames cap)) \<le> idx r"
        using None read_inv_idx_nonneg [OF inv start] by (simp add: cap_read_def split: if_splits)
      then have fin: "min total_frames (int (length (frames cap))) \<le> idx r" by simp
      have "int (attempts r + 1) \<le> (base_N - 1) * step + 1"
        using att hi cle by simp
      then have "int (attempts (r\<lparr>attempts := attempts r + 1\<rparr>)) \<le> max 0 ((base_N - 1) * step + 1)"
        by simp
      then show ?thesis
        using rl inv fin by (auto simp: read_inv_attempts_update)
    next
      case (Some frame)
      have s0: "step \<noteq> 0" using step by simp
      from Some have inb: "idx r < int (length (frames cap))"
        and fr: "frame = frames cap ! nat (idx r)"
        by (auto simp: cap_read_def split: if_splits)
      have nidx: "nat (idx r) = nat start + nat (read_count r)"
        using idx rc0 start by (simp add: nat_add_distrib)
      show ?thesis
      proof (cases "read_step resize p step frame r")
        case (Inl e)
        from read_step_Inl [OF Inl] have e: "e = CvError"
          and m: "read_count r mod step = 0"
          and sc: "scaled resize p frame = Inl CvError" by blast+
        have rl: "read_loop resize cap p step base_N total_frames r = Inl CvError"
          using True Some s0 Inl e by (subst read_loop.simps) simp
        have k1: "int (nat (read_count r)) mod step = 0" using m rc0 by simp
        have k2: "nat start + nat (read_count r) < length (frames cap)"
          using inb nidx read_inv_idx_nonneg [OF inv start] by simp
        have k3: "scaled resize p (frames cap ! (nat start + nat (read_count r))) = Inl CvError"
          using sc fr nidx by simp
        have k4: "int (nat (read_count r)) \<le> (base_N - 1) * step"
          using hi cle rc0 by simp
        have "\<exists>k. int k mod step = 0 \<and> nat start + k < length (frames cap) \<and>
                  int k \<le> (base_N - 1) * step \<and>
                  scaled resize p (frames cap ! (nat start + k)) = Inl CvError"
          by (rule exI [of _ "nat (read_count r)"]) (simp only: k1 k2 k3 k4 simp_thms)
        with rl show ?thesis by (intro disjI2 conjI)
      next
        case (Inr r2)
        have inv2: "read_inv resize cap p step base_N total_frames start r2"
          using read_step_inv [OF inv step start c ix Some Inr] .
        note f = read_step_Inr [OF Inr]
        have att2: "int (attempts r2) = read_count r2"
          using att by (simp add: f(1,3))
        have rc2: "read_count r2 \<le> (base_N - 1) * step + 1"
          using hi cle by (simp add: f(1))
        show ?thesis
        proof (cases "read_count r2 > frame_window p + 10")
          case True
          then have rl: "read_loop resize cap p step base_N total_frames r = Inr r2"
            using \<open>?c < base_N \<and> idx r \<le> total_frames - 1\<close> Some s0 Inr
            by (subst read_loop.simps) simp
          have "int (attempts r2) \<le> max 0 ((base_N - 1) * step + 1)"
            using att2 rc2 by simp
          then show ?thesis using rl inv2 True by auto
        next
          case False
          then have rl: "read_loop resize cap p step base_N total_frames r =
                         read_loop resize cap p step base_N total_frames r2"
            using \<open>?c < base_N \<and> idx r \<le> total_frames - 1\<close> Some s0 Inr
            by (subst read_loop.simps) simp
          show ?thesis
            unfolding rl
            using "1.IH" [OF \<open>?c < base_N \<and> idx r \<le> total_frames - 1\<close> Some s0 Inr False
                         step start inv2 att2] .
        qed
      qed
    qed
  qed
qed

lemma read_inv_start:
  assumes "1 \<le> step"
  shows "read_inv resize cap p step base_N total_frames start
           \<lparr>collected = [], read_count = 0, idx = start, attempts = 0\<rparr>"
  using assms by (simp add: read_inv_def)

lemma start_frame_of_nonneg: "0 \<le> start_frame_of frame_num p"
  by (simp add: start_frame_of_def Let_def)

lemma read_frames_spec:
  assumes "0 \<le> frame_skip p"
  shows "(\<exists>r. read_frames resize cap frame_num p = Inr r \<and>
           read_inv resize cap p (frame_skip p + 1) (base_frame_window p) (frame_count cap)
             (start_frame_of frame_num p) r \<and>
           int (attempts r) \<le> max 0 ((base_frame_window p - 1) * (frame_skip p + 1) + 1) \<and>
           (base_frame_window p \<le> int (length (collected r)) \<or>
            min (frame_count cap) (int (length (frames cap))) \<le> idx r \<or>
            frame_window p + 10 < read_count r)) \<or>
         (read_frames resize cap frame_num p = Inl CvError \<and>
          (\<exists>k. int k mod (frame_skip p + 1) = 0 \<and>
               nat (start_frame_of frame_num p) + k < length (frames cap) \<and>
               int k \<le> (base_frame_window p - 1) * (frame_skip p + 1) \<and>
               scaled resize p (frames cap ! (nat (start_frame_of frame_num p) + k)) = Inl CvError))"
proof -
  have step: "1 \<le> frame_skip p + 1" using assms by simp
  show ?thesis
    unfolding read_frames_def
    by (rule read_loop_spec [OF step start_frame_of_nonneg read_inv_start [OF step]]) simp
qed

lemma read_count_closed_form:
  fixes rc c step base_N A :: int
  assumes step: "1 \<le> step"
    and lo: "c * step - step < rc" and hi: "rc \<le> c * step"
    and top: "rc \<le> max 0 ((base_N - 1) * step + 1)"
    and av: "rc = 0 \<or> rc \<le> A" and rc0: "0 \<le> rc"
    and fin: "base_N \<le> c \<or> A \<le> rc"
  shows "rc = max 0 (min A ((base_N - 1) * step + 1))"
proof -
  have up: "rc \<le> max 0 (min A ((base_N - 1) * step + 1))"
    using top av rc0 by auto
  have "min A ((base_N - 1) * step + 1) \<le> rc"
  proof (cases "base_N \<le> c")
    case True
    then have "(base_N - 1) * step \<le> (c - 1) * step"
      using step by (intro mult_right_mono) auto
    also have "\<dots> = c * step - step" by (simp add: algebra_simps)
    finally show ?thesis using lo by simp
  next
    case False
    with fin show ?thesis by simp
  qed
  with rc0 have "max 0 (min A ((base_N - 1) * step + 1)) \<le> rc" by simp
  with up show ?thesis by simp
qed

lemma collected_at_most:
  fixes rc c step base_N :: int
  assumes step: "1 \<le> step" and c0: "0 \<le> c"
    and lo: "c * step - step < rc"
    and top: "rc \<le> max 0 ((base_N - 1) * step + 1)"
  shows "c \<le> max 0 base_N"
proof (rule ccontr)
  assume "\<not> c \<le> max 0 base_N"
  then have c: "1 \<le> c" "base_N + 1 \<le> c" by simp_all
  have "(c - 1) * step = c * step - step" by (simp add: algebra_simps)
  moreover have "base_N * step \<le> (c - 1) * step"
    using c(2) step by (intro mult_right_mono) auto
  moreover have "0 * step \<le> (c - 1) * step"
    using c(1) step by (intro mult_right_mono) auto
  moreover have "(base_N - 1) * step + 1 \<le> base_N * step"
    using step by (simp add: algebra_simps)
  ultimately show False using lo top by simp
qed

subsection \<open>The motion image and the whole function\<close>

lemma blend_eq:
  "i < length (rgb_multipliers p) \<Longrightarrow>
   blend p g src2 i =
     Inr (addWeighted g (lum_weight p) src2 (rgb_multipliers p ! i) (of_int (motion_threshold p)))"
  by (simp add: blend_def index_def)

lemma motion_image_eq:
  assumes "3 \<le> length (rgb_multipliers p)"
  shows "motion_image p (d0, d1, d2) g =
     Inr (if chromatic_tail_only p = ''true'' then
            merge (addWeighted g (lum_weight p) (subtract d0 d1) (rgb_multipliers p ! 2) (of_int (motion_threshold p)))
                  (addWeighted g (lum_weight p) (subtract d1 d0) (rgb_multipliers p ! 1) (of_int (motion_threshold p)))
                  (addWeighted g (lum_weight p) (subtract d2 d1) (rgb_multipliers p ! 0) (of_int (motion_threshold p)))
          else
            merge (addWeighted g (lum_weight p) d0 (rgb_multipliers p ! 2) (of_int (motion_threshold p)))
                  (addWeighted g (lum_weight p) d1 (rgb_multipliers p ! 1) (of_int (motion_threshold p)))
                  (addWeighted g (lum_weight p) d2 (rgb_multipliers p ! 0) (of_int (motion_threshold p))))"
proof -
  have b: "blend p g x 2 = Inr (addWeighted g (lum_weight p) x (rgb_multipliers p ! 2) (of_int (motion_threshold p)))"
          "blend p g x (Suc 0) = Inr (addWeighted g (lum_weight p) x (rgb_multipliers p ! Suc 0) (of_int (motion_threshold p)))"
          "blend p g x 0 = Inr (addWeighted g (lum_weight p) x (rgb_multipliers p ! 0) (of_int (motion_threshold p)))"
    for x :: "'a gray_image"
    using assms by (auto simp: blend_def index_def)
  show ?thesis
    by (simp add: motion_image_def b Let_def)
qed

lemma motion_image_short:
  assumes "length (rgb_multipliers p) < 3"
  shows "motion_image p ds g = Inl IndexError"
proof -
  have "\<not> 2 < length (rgb_multipliers p)" using assms by simp
  then have "blend p g x 2 = Inl IndexError" for x :: "'a gray_image"
    by (simp add: blend_def index_def)
  then show ?thesis
    by (cases ds) (simp add: motion_image_def Let_def)
qed

lemma motion_image_Inr:
  assumes "motion_image p ds g = Inr m"
  shows "3 \<le> length (rgb_multipliers p)"
  using assms motion_image_short [of p ds g] by (cases "3 \<le> length (rgb_multipliers p)") auto

lemma generate_Some:
  assumes "generate_base_images resize cvtColor cap frame_num p = Inr (s, Some m)"
  shows "\<exists>r e ds g. read_frames resize cap frame_num p = Inr r \<and>
           process_frames cvtColor p engine_init (collected r) = Inr e \<and>
           diffs e = Some ds \<and> gray e = Some g \<and> motion_image p ds g = Inr m \<and>
           s = static_img e"
proof -
  from assms obtain r where r: "read_frames resize cap frame_num p = Inr r"
    and ne: "collected r \<noteq> []"
    and rest: "and_then (process_frames cvtColor p engine_init (collected r)) (\<lambda>e.
              case diffs e of
                None \<Rightarrow> Inr (None, None)
              | Some ds \<Rightarrow>
                  (case gray e of
                     None \<Rightarrow> Inr (None, None)
                   | Some g \<Rightarrow>
                       and_then (motion_image p ds g)
                         (\<lambda>motion_img. Inr (static_img e, Some motion_img)))) = Inr (s, Some m)"
    by (auto simp: generate_base_images_def Let_def and_then_Inr_iff split: if_splits)
  from rest obtain e where e: "process_frames cvtColor p engine_init (collected r) = Inr e"
    and rest2: "(case diffs e of
                None \<Rightarrow> Inr (None, None)
              | Some ds \<Rightarrow>
                  (case gray e of
                     None \<Rightarrow> Inr (None, None)
                   | Some g \<Rightarrow>
                       and_then (motion_image p ds g)
                         (\<lambda>motion_img. Inr (static_img e, Some motion_img)))) = Inr (s, Some m)"
    by (auto simp: and_then_Inr_iff)
  from rest2 obtain ds where ds: "diffs e = Some ds" by (cases "diffs e") auto
  from rest2 ds obtain g where g: "gray e = Some g" by (cases "gray e") auto
  from rest2 ds g have "motion_image p ds g = Inr m \<and> s = static_img e"
    by (auto simp: and_then_Inr_iff)
  with r e ds g show ?thesis by blast
qed



lemma generate_unfold:
  assumes "isOpened cap" and "0 < frame_count cap"
    and "start_frame_of frame_num p \<le> frame_count cap - 1"
    and "read_frames resize cap frame_num p = Inr r" and "collected r \<noteq> []"
    and "process_frames cvtColor p engine_init (collected r) = Inr e"
    and "diffs e = Some ds" and "gray e = Some g"
  shows "generate_base_images resize cvtColor cap frame_num p =
           and_then (motion_image p ds g) (\<lambda>m. Inr (static_img e, Some m))"
proof -
  have nz: "\<not> frame_count cap \<le> 0" "\<not> start_frame_of frame_num p > frame_count cap - 1"
    using assms(2,3) by simp_all
  show ?thesis
    unfolding generate_base_images_def Let_def
    by (simp only: assms(1,4-8) nz and_then_Inr if_False if_True not_True_eq_False
          not_False_eq_True option.case)
qed


lemma generate_enough:
  assumes "isOpened cap" and "0 < frame_count cap"
    and "start_frame_of frame_num p \<le> frame_count cap - 1"
    and "read_frames resize cap frame_num p = Inr r" and "2 \<le> length (collected r)"
    and "3 \<le> length (rgb_multipliers p)"
  shows "\<exists>s m. generate_base_images resize cvtColor cap frame_num p = Inr (Some s, Some m)"
proof -
  have ne: "collected r \<noteq> []" using assms(5) by auto
  obtain e where e: "process_frames cvtColor p engine_init (collected r) = Inr e"
    and st: "static_img e = Some (last (collected r))"
    and gr: "gray e = Some (cvtColor (last (collected r)))"
    and df: "diffs e = None \<longleftrightarrow> length (collected r) = 1"
    using process_frames_nonempty [OF ne, of cvtColor p] by auto
  have "diffs e \<noteq> None" using df assms(5) by simp
  then obtain ds where ds: "diffs e = Some ds" by auto
  obtain d0 d1 d2 where d: "ds = (d0, d1, d2)" by (cases ds)
  obtain m where m: "motion_image p ds (cvtColor (last (collected r))) = Inr m"
    unfolding d using motion_image_eq [OF assms(6)] by blast
  have "generate_base_images resize cvtColor cap frame_num p = Inr (static_img e, Some m)"
    unfolding generate_unfold [OF assms(1-4) ne e ds gr] m by (simp only: and_then_Inr)
  then show ?thesis unfolding st by blast
qed



subsection \<open>The example evaluated\<close>

lemma load_config_ex: "load_config float_ex int_ex config_ex = Inr params_ex"
  by (simp add: load_config_def float_ex_def int_ex_def config_ex_def get_def convert_def
        base_window_of_def lower_def lower_char_def params_ex_def)

lemma read_frames_ex:
  "read_frames resize_ex cap_ex 9 params_ex =
     Inr \<lparr>collected = [30, 50, 70, 90], read_count = 7, idx = 10, attempts = 7\<rparr>"
  by (simp add: read_frames_def start_frame_of_def params_ex_def cap_ex_def read_loop.simps
        cap_read_def read_step_def scaled_def and_then_def Let_def)

lemma generate_ex:
  "generate_base_images resize_ex cvt_ex cap_ex 9 params_ex = Inr (Some 90, Some (\<lambda>i. (148, 168, 148)))"
  unfolding generate_base_images_def read_frames_ex
  by (simp add: start_frame_of_def params_ex_def cap_ex_def process_frame_def engine_init_def
        update_prev_frames_def cvt_ex_def absdiff_def motion_image_def blend_def index_def
        addWeighted_def merge_def saturate8_def cvRound_def px_def Let_def)

lemma load_config_Inr:
  assumes "load_config float_of int_of config = Inr p"
  shows "\<exists>mt. int_of (get config ''motion_threshold'' ''0'') = Some mt \<and>
           motion_threshold p = - mt \<and>
           base_frame_window p = base_window_of (strategy p) (expA p) (expB p) \<and>
           frame_window p = base_frame_window p * (frame_skip p + 1)"
  using assms
  by (auto simp: load_config_def and_then_Inr_iff Let_def convert_def split: option.splits)

lemma process_frames_snoc:
  assumes "fs \<noteq> []"
  shows "\<exists>e r0 r1 r2. process_frames c p engine_init fs = Inr e \<and>
           prev_frames e = Some (r0, r1, r2) \<and>
           process_frames c p engine_init (fs @ [f]) =
             Inr \<lparr>static_img = Some f,
                  prev_frames = Some (update_prev_frames p (r0, r1, r2) (c f)),
                  diffs = Some (absdiff r0 (c f), absdiff r1 (c f), absdiff r2 (c f)),
                  gray = Some (c f)\<rparr>"
proof -
  obtain e where e: "process_frames c p engine_init fs = Inr e"
    and st: "static_img e = Some (last fs)" and pf: "prev_frames e \<noteq> None"
    using process_frames_nonempty [OF assms, of c p] by auto
  from pf obtain refs where "prev_frames e = Some refs" by auto
  then obtain r0 r1 r2 where refs: "prev_frames e = Some (r0, r1, r2)" by (cases refs) auto
  have "process_frames c p engine_init (fs @ [f]) =
             Inr \<lparr>static_img = Some f,
                  prev_frames = Some (update_prev_frames p (r0, r1, r2) (c f)),
                  diffs = Some (absdiff r0 (c f), absdiff r1 (c f), absdiff r2 (c f)),
                  gray = Some (c f)\<rparr>"
    by (simp add: process_frames_append e process_frame_next [OF st refs])
  with e refs show ?thesis by blast
qed

subsection \<open>Claims about the references and the configuration\<close>

text \<open>
  C5. Under the exponential strategy one step of the engine (a frame after the first, so
  the references \<open>(r0, r1, r2)\<close> are set) leaves in \<open>ref[1]\<close> exactly the new grayscale
  frame when \<open>expA = 0\<close>, and exactly the prior \<open>ref[1]\<close> when \<open>expA = 1\<close>: the blend
  \<^verbatim>\<open>addWeighted(ref1, expA, gray, 1 - expA, 0)\<close> with its rounding and saturation is the
  identity on 8-bit samples at both ends.
\<close>
theorem exponential_expA_extremes:
  assumes "strategy p = ''exponential''"
    and "static_img e = Some s" and "prev_frames e = Some (r0, r1, r2)"
  shows "(expA p = 0 \<longrightarrow>
            (\<exists>e' x z. process_frame cvtColor p e f = Inr e' \<and>
                       prev_frames e' = Some (x, cvtColor f, z))) \<and>
         (expA p = 1 \<longrightarrow>
            (\<exists>e' x z. process_frame cvtColor p e f = Inr e' \<and>
                       prev_frames e' = Some (x, r1, z)))"
  using assms(1)
  by (simp add: process_frame_next [OF assms(2,3)] update_prev_frames_def
        addWeighted_zero_one addWeighted_one_zero)

theorem exponential_expA_extremes_witness:
  "(\<exists>e' x z. process_frame cvt_ex (params_ex\<lparr>strategy := ''exponential'', expA := 0\<rparr>)
                (\<lparr>static_img = Some 10, prev_frames = Some (cvt_ex 10, cvt_ex 7, cvt_ex 3),
                  diffs = None, gray = Some (cvt_ex 10)\<rparr> :: (nat, unit) engine) 30 = Inr e' \<and>
              prev_frames e' = Some (x, cvt_ex 30, z)) \<and>
   (\<exists>e' x z. process_frame cvt_ex (params_ex\<lparr>strategy := ''exponential'', expA := 1\<rparr>)
                (\<lparr>static_img = Some 10, prev_frames = Some (cvt_ex 10, cvt_ex 7, cvt_ex 3),
                  diffs = None, gray = Some (cvt_ex 10)\<rparr> :: (nat, unit) engine) 30 = Inr e' \<and>
              prev_frames e' = Some (x, cvt_ex 7, z))"
  using exponential_expA_extremes [of "params_ex\<lparr>strategy := ''exponential'', expA := 0\<rparr>"
          "\<lparr>static_img = Some 10, prev_frames = Some (cvt_ex 10, cvt_ex 7, cvt_ex 3),
            diffs = None, gray = Some (cvt_ex 10)\<rparr>" 10 "cvt_ex 10" "cvt_ex 7" "cvt_ex 3" cvt_ex 30]
        exponential_expA_extremes [of "params_ex\<lparr>strategy := ''exponential'', expA := 1\<rparr>"
          "\<lparr>static_img = Some 10, prev_frames = Some (cvt_ex 10, cvt_ex 7, cvt_ex 3),
            diffs = None, gray = Some (cvt_ex 10)\<rparr>" 10 "cvt_ex 10" "cvt_ex 7" "cvt_ex 3" cvt_ex 30]
  by simp

text \<open>
  C3. Under the sequential strategy, once \<open>n \<ge> 3\<close> frames of a window have been processed
  (the initializing frame \<open>fs ! 0\<close> counted, so this covers every \<open>k \<ge> 3\<close> frames after
  it, and \<open>k = 2\<close> as well), \<open>ref[0]\<close> is the grayscale of the current frame, \<open>ref[1]\<close> of
  the frame one step before and \<open>ref[2]\<close> of the frame two steps before, as equal images.
  On every step after the first the three diffs are the absolute differences of the new
  grayscale frame with the references as they were before that step.
\<close>
theorem sequential_reference_shift:
  assumes "strategy p = ''sequential''"
  shows "(\<forall>n. 3 \<le> n \<and> n \<le> length fs \<longrightarrow>
            (\<exists>e. process_frames cvtColor p engine_init (take n fs) = Inr e \<and>
                 prev_frames e = Some (cvtColor (fs ! (n - 1)), cvtColor (fs ! (n - 2)),
                                       cvtColor (fs ! (n - 3))))) \<and>
         (\<forall>n. 1 \<le> n \<and> n < length fs \<longrightarrow>
            (\<exists>e r0 r1 r2 e'.
                 process_frames cvtColor p engine_init (take n fs) = Inr e \<and>
                 prev_frames e = Some (r0, r1, r2) \<and>
                 process_frames cvtColor p engine_init (take (Suc n) fs) = Inr e' \<and>
                 diffs e' = Some (absdiff r0 (cvtColor (fs ! n)), absdiff r1 (cvtColor (fs ! n)),
                                  absdiff r2 (cvtColor (fs ! n)))))"
proof (intro conjI allI impI)
  fix n assume n: "3 \<le> n \<and> n \<le> length fs"
  then have ne: "take n fs \<noteq> []" by auto
  have len: "length (take n fs) = n" using n by simp
  have nth: "take n fs ! (n - 1) = fs ! (n - 1)" "take n fs ! (n - 2) = fs ! (n - 2)"
    "take n fs ! (n - 3) = fs ! (n - 3)"
    using n by simp_all
  from sequential_refs [OF assms ne, of cvtColor]
  show "\<exists>e. process_frames cvtColor p engine_init (take n fs) = Inr e \<and>
            prev_frames e = Some (cvtColor (fs ! (n - 1)), cvtColor (fs ! (n - 2)),
                                  cvtColor (fs ! (n - 3)))"
    unfolding len nth by blast
next
  fix n assume n: "1 \<le> n \<and> n < length fs"
  then have ne: "take n fs \<noteq> []" by auto
  have tk: "take (Suc n) fs = take n fs @ [fs ! n]"
    using n by (simp add: take_Suc_conv_app_nth)
  from process_frames_snoc [OF ne, of cvtColor p "fs ! n"]
  obtain e r0 r1 r2 where e: "process_frames cvtColor p engine_init (take n fs) = Inr e"
    "prev_frames e = Some (r0, r1, r2)"
    "process_frames cvtColor p engine_init (take n fs @ [fs ! n]) =
             Inr \<lparr>static_img = Some (fs ! n),
                  prev_frames = Some (update_prev_frames p (r0, r1, r2) (cvtColor (fs ! n))),
                  diffs = Some (absdiff r0 (cvtColor (fs ! n)), absdiff r1 (cvtColor (fs ! n)),
                                absdiff r2 (cvtColor (fs ! n))),
                  gray = Some (cvtColor (fs ! n))\<rparr>"
    by blast
  show "\<exists>e r0 r1 r2 e'.
                 process_frames cvtColor p engine_init (take n fs) = Inr e \<and>
                 prev_frames e = Some (r0, r1, r2) \<and>
                 process_frames cvtColor p engine_init (take (Suc n) fs) = Inr e' \<and>
                 diffs e' = Some (absdiff r0 (cvtColor (fs ! n)), absdiff r1 (cvtColor (fs ! n)),
                                  absdiff r2 (cvtColor (fs ! n)))"
  proof -
    let ?e' = "\<lparr>static_img = Some (fs ! n),
                  prev_frames = Some (update_prev_frames p (r0, r1, r2) (cvtColor (fs ! n))),
                  diffs = Some (absdiff r0 (cvtColor (fs ! n)), absdiff r1 (cvtColor (fs ! n)),
                                absdiff r2 (cvtColor (fs ! n))),
                  gray = Some (cvtColor (fs ! n))\<rparr>"
    have d: "diffs ?e' = Some (absdiff r0 (cvtColor (fs ! n)), absdiff r1 (cvtColor (fs ! n)),
                                  absdiff r2 (cvtColor (fs ! n)))" by simp
    show ?thesis unfolding tk using e(1,2,3) d by blast
  qed
qed

theorem sequential_reference_shift_witness:
  "strategy params_ex = ''sequential'' \<and>
   (\<exists>e. process_frames cvt_ex params_ex engine_init [30, 50, 70, 90] = Inr e \<and>
        prev_frames e = Some (cvt_ex 90, cvt_ex 70, cvt_ex 50)) \<and>
   (\<exists>e r0 r1 r2 e'.
        process_frames cvt_ex params_ex engine_init [30, 50, 70] = Inr e \<and>
        prev_frames e = Some (r0, r1, r2) \<and>
        process_frames cvt_ex params_ex engine_init [30, 50, 70, 90] = Inr e' \<and>
        diffs e' = Some (absdiff r0 (cvt_ex 90), absdiff r1 (cvt_ex 90), absdiff r2 (cvt_ex 90)))"
proof -
  have s: "strategy params_ex = ''sequential''" by (simp add: params_ex_def)
  note t = sequential_reference_shift [OF s, of "[30, 50, 70, 90]" cvt_ex]
  have a: "\<exists>e. process_frames cvt_ex params_ex engine_init (take 4 [30, 50, 70, 90]) = Inr e \<and>
        prev_frames e = Some (cvt_ex ([30, 50, 70, 90] ! (4 - 1)), cvt_ex ([30, 50, 70, 90] ! (4 - 2)),
                              cvt_ex ([30, 50, 70, 90] ! (4 - 3)))"
    by (rule t [THEN conjunct1, rule_format, of 4]) simp
  have b: "\<exists>e r0 r1 r2 e'.
        process_frames cvt_ex params_ex engine_init (take 3 [30, 50, 70, 90]) = Inr e \<and>
        prev_frames e = Some (r0, r1, r2) \<and>
        process_frames cvt_ex params_ex engine_init (take (Suc 3) [30, 50, 70, 90]) = Inr e' \<and>
        diffs e' = Some (absdiff r0 (cvt_ex ([30, 50, 70, 90] ! 3)), absdiff r1 (cvt_ex ([30, 50, 70, 90] ! 3)),
                         absdiff r2 (cvt_ex ([30, 50, 70, 90] ! 3)))"
    by (rule t [THEN conjunct2, rule_format, of 3]) simp
  have tk: "take 4 [30, 50, 70, 90 :: nat] = [30, 50, 70, 90]"
    "take 3 [30, 50, 70, 90 :: nat] = [30, 50, 70]"
    "take (Suc 3) [30, 50, 70, 90 :: nat] = [30, 50, 70, 90]"
    "[30, 50, 70, 90 :: nat] ! (4 - 1) = 90" "[30, 50, 70, 90 :: nat] ! (4 - 2) = 70"
    "[30, 50, 70, 90 :: nat] ! (4 - 3) = 50" "[30, 50, 70, 90 :: nat] ! 3 = 90"
    by simp_all
  show ?thesis using s a b unfolding tk by blast
qed

text \<open>
  C10. Every parameter record that \<^verbatim>\<open>load_config\<close> returns has
  \<open>frame_window = base_frame_window * (frame_skip + 1)\<close> and a \<open>base_frame_window\<close> that is
  one of 4, 5, 10, 15, 20, 45, hence at least 4; it is 4 for the sequential strategy, and for
  the exponential strategy it does not decrease when \<open>max expA expB\<close> grows.
\<close>
theorem load_config_window_invariant:
  assumes "load_config float_of int_of config = Inr p"
  shows "frame_window p = base_frame_window p * (frame_skip p + 1) \<and>
         base_frame_window p \<in> {4, 5, 10, 15, 20, 45} \<and> 4 \<le> base_frame_window p \<and>
         (strategy p = ''sequential'' \<longrightarrow> base_frame_window p = 4) \<and>
         (\<forall>float_of' int_of' config' p'.
            load_config float_of' int_of' config' = Inr p' \<and>
            strategy p = ''exponential'' \<and> strategy p' = ''exponential'' \<and>
            max (expA p) (expB p) \<le> max (expA p') (expB p') \<longrightarrow>
            base_frame_window p \<le> base_frame_window p')"
proof -
  from load_config_Inr [OF assms]
  have fw: "frame_window p = base_frame_window p * (frame_skip p + 1)"
    and bw: "base_frame_window p = base_window_of (strategy p) (expA p) (expB p)" by auto
  have mem: "base_window_of s a b \<in> {4, 5, 10, 15, 20, 45}" for s a b
    by (simp add: base_window_of_cases)
  have ge: "4 \<le> base_window_of s a b" for s a b
    by (simp add: base_window_of_cases)
  have seq: "base_window_of ''sequential'' a b = 4" for a b
    by (simp add: base_window_of_cases)
  have mono: "base_frame_window p \<le> base_frame_window p'"
    if "load_config float_of' int_of' config' = Inr p'"
      "strategy p = ''exponential''" "strategy p' = ''exponential''"
      "max (expA p) (expB p) \<le> max (expA p') (expB p')"
    for float_of' int_of' config' p'
  proof -
    from load_config_Inr [OF that(1)]
    have "base_frame_window p' = base_window_of (strategy p') (expA p') (expB p')" by auto
    then show ?thesis
      using bw that(2,3) base_window_of_mono [OF that(4)] by simp
  qed
  have c2: "base_frame_window p \<in> {4, 5, 10, 15, 20, 45}"
    unfolding bw by (rule mem)
  have c3: "4 \<le> base_frame_window p"
    unfolding bw by (rule ge)
  have c4: "strategy p = ''sequential'' \<longrightarrow> base_frame_window p = 4"
    unfolding bw by (simp add: seq)
  show ?thesis
    using fw c2 c3 c4 mono by blast
qed
theorem load_config_window_invariant_witness:
  "\<exists>p p' q. load_config float_ex int_ex [''rgb_multipliers'' \<mapsto> ''1,2,3''] = Inr p \<and>
     load_config float_ex int_ex [''rgb_multipliers'' \<mapsto> ''1,2,3'', ''expA'' \<mapsto> ''0.95''] = Inr p' \<and>
     load_config float_ex int_ex config_ex = Inr q \<and>
     strategy p = ''exponential'' \<and> strategy p' = ''exponential'' \<and> strategy q = ''sequential'' \<and>
     max (expA p) (expB p) \<le> max (expA p') (expB p') \<and>
     base_frame_window p = 15 \<and> base_frame_window p' = 45 \<and> base_frame_window q = 4 \<and>
     base_frame_window p \<le> base_frame_window p' \<and>
     frame_window q = base_frame_window q * (frame_skip q + 1) \<and> frame_window q = 8 \<and>
     base_frame_window p \<in> {4, 5, 10, 15, 20, 45} \<and> 4 \<le> base_frame_window p"
proof -
  let ?p = "params_ex\<lparr>strategy := ''exponential'', lum_weight := 7 / 10, frame_skip := 0,
               motion_threshold := 0, base_frame_window := 15, frame_window := 15\<rparr>"
  let ?p' = "params_ex\<lparr>strategy := ''exponential'', expA := 95 / 100, lum_weight := 7 / 10, frame_skip := 0,
               motion_threshold := 0, base_frame_window := 45, frame_window := 45\<rparr>"
  have e1: "load_config float_ex int_ex [''rgb_multipliers'' \<mapsto> ''1,2,3''] = Inr ?p"
    by (simp add: load_config_def float_ex_def int_ex_def get_def convert_def
        base_window_of_def lower_def lower_char_def params_ex_def)
  have e2: "load_config float_ex int_ex [''rgb_multipliers'' \<mapsto> ''1,2,3'', ''expA'' \<mapsto> ''0.95''] = Inr ?p'"
    by (simp add: load_config_def float_ex_def int_ex_def get_def convert_def
        base_window_of_def lower_def lower_char_def params_ex_def)
  have m: "strategy ?p = ''exponential''" "strategy ?p' = ''exponential''"
    "max (expA ?p) (expB ?p) \<le> max (expA ?p') (expB ?p')"
    "base_frame_window ?p = 15" "base_frame_window ?p' = 45"
    "strategy params_ex = ''sequential''" "base_frame_window params_ex = 4" "frame_window params_ex = 8"
    by (simp_all add: params_ex_def)
  have le: "base_frame_window ?p \<le> base_frame_window ?p'"
    using load_config_window_invariant [OF e1] e2 m(1-3) by blast
  have q: "frame_window params_ex = base_frame_window params_ex * (frame_skip params_ex + 1)"
    using load_config_window_invariant [OF load_config_ex] by blast
  have r: "base_frame_window ?p \<in> {4, 5, 10, 15, 20, 45}" "4 \<le> base_frame_window ?p"
    using load_config_window_invariant [OF e1] by blast+
  show ?thesis
    using e1 e2 load_config_ex m le q r by blast
qed

lemma motion_image_Inr_eq:
  assumes "motion_image p (d0, d1, d2) g = Inr m"
  shows "m = (if chromatic_tail_only p = ''true'' then
            merge (addWeighted g (lum_weight p) (subtract d0 d1) (rgb_multipliers p ! 2) (of_int (motion_threshold p)))
                  (addWeighted g (lum_weight p) (subtract d1 d0) (rgb_multipliers p ! 1) (of_int (motion_threshold p)))
                  (addWeighted g (lum_weight p) (subtract d2 d1) (rgb_multipliers p ! 0) (of_int (motion_threshold p)))
          else
            merge (addWeighted g (lum_weight p) d0 (rgb_multipliers p ! 2) (of_int (motion_threshold p)))
                  (addWeighted g (lum_weight p) d1 (rgb_multipliers p ! 1) (of_int (motion_threshold p)))
                  (addWeighted g (lum_weight p) d2 (rgb_multipliers p ! 0) (of_int (motion_threshold p))))"
  using assms motion_image_eq [OF motion_image_Inr [OF assms], of d0 d1 d2 g] by simp

lemma unat_subtract: "unat (subtract a b i) = unat (a i) - unat (b i)"
  by (simp add: subtract_def unat_sub word_le_nat_alt)

lemma int_monus: "int (x - y) = max 0 (int x - int y)"
  by linarith

lemma subtract_saturates:
  "int (unat (subtract a b i)) = max 0 (int (unat (a i)) - int (unat (b i)))"
  unfolding unat_subtract by (rule int_monus)

subsection \<open>Claims about the motion image\<close>

text \<open>
  C4. In direct mode (\<open>chromatic_tail_only\<close> is not \<^verbatim>\<open>'true'\<close>), whenever
  \<^verbatim>\<open>generate_base_images\<close> returns a motion image \<open>m\<close> for parameters that \<^verbatim>\<open>load_config\<close>
  returned, every pixel of \<open>m\<close> is the triple (blue, green, red) with
  blue = \<open>saturate8 (gray * lum_weight + diff[0] * rgb_multipliers[2] + bias)\<close>,
  green = \<open>saturate8 (gray * lum_weight + diff[1] * rgb_multipliers[1] + bias)\<close> and
  red = \<open>saturate8 (gray * lum_weight + diff[2] * rgb_multipliers[0] + bias)\<close>, where \<open>gray\<close> and
  \<open>diff\<close> are the luminance and the diffs of the last processed frame and \<open>bias\<close> is the
  negation of the configured \<^verbatim>\<open>motion_threshold\<close> integer.
\<close>

theorem direct_mode_channel_mapping:
  assumes "load_config float_of int_of config = Inr p"
    and "chromatic_tail_only p \<noteq> ''true''"
    and "generate_base_images resize cvtColor cap frame_num p = Inr (s, Some m)"
  shows "\<exists>r e d0 d1 d2 g mt.
           read_frames resize cap frame_num p = Inr r \<and>
           process_frames cvtColor p engine_init (collected r) = Inr e \<and>
           diffs e = Some (d0, d1, d2) \<and> gray e = Some g \<and>
           int_of (get config ''motion_threshold'' ''0'') = Some mt \<and>
           (\<forall>i. m i =
              (saturate8 (px (g i) * lum_weight p + px (d0 i) * rgb_multipliers p ! 2 + of_int (- mt)),
               saturate8 (px (g i) * lum_weight p + px (d1 i) * rgb_multipliers p ! 1 + of_int (- mt)),
               saturate8 (px (g i) * lum_weight p + px (d2 i) * rgb_multipliers p ! 0 + of_int (- mt))))"
proof -
  from generate_Some [OF assms(3)]
  obtain r e ds g where r: "read_frames resize cap frame_num p = Inr r"
    and e: "process_frames cvtColor p engine_init (collected r) = Inr e"
    and ds: "diffs e = Some ds" and g: "gray e = Some g"
    and mi: "motion_image p ds g = Inr m" by blast
  obtain d0 d1 d2 where d: "ds = (d0, d1, d2)" by (cases ds)
  from load_config_Inr [OF assms(1)]
  obtain mt where mt: "int_of (get config ''motion_threshold'' ''0'') = Some mt"
    "motion_threshold p = - mt" by blast
  have m: "m = merge (addWeighted g (lum_weight p) d0 (rgb_multipliers p ! 2) (of_int (motion_threshold p)))
                  (addWeighted g (lum_weight p) d1 (rgb_multipliers p ! 1) (of_int (motion_threshold p)))
                  (addWeighted g (lum_weight p) d2 (rgb_multipliers p ! 0) (of_int (motion_threshold p)))"
    using motion_image_Inr_eq [OF mi [unfolded d]] assms(2) by simp
  have px: "\<forall>i. m i =
              (saturate8 (px (g i) * lum_weight p + px (d0 i) * rgb_multipliers p ! 2 + of_int (- mt)),
               saturate8 (px (g i) * lum_weight p + px (d1 i) * rgb_multipliers p ! 1 + of_int (- mt)),
               saturate8 (px (g i) * lum_weight p + px (d2 i) * rgb_multipliers p ! 0 + of_int (- mt)))"
    unfolding m mt(2) by (simp add: merge_def addWeighted_def)
  show ?thesis
    using r e ds [unfolded d] g mt(1) px by blast
qed

theorem direct_mode_channel_mapping_witness:
  "load_config float_ex int_ex config_ex = Inr params_ex \<and>
   chromatic_tail_only params_ex \<noteq> ''true'' \<and>
   generate_base_images resize_ex cvt_ex cap_ex 9 params_ex = Inr (Some 90, Some (\<lambda>i. (148, 168, 148))) \<and>
   (\<exists>r e d0 d1 d2 g mt.
           read_frames resize_ex cap_ex 9 params_ex = Inr r \<and>
           process_frames cvt_ex params_ex engine_init (collected r) = Inr e \<and>
           diffs e = Some (d0, d1, d2) \<and> gray e = Some g \<and>
           int_ex (get config_ex ''motion_threshold'' ''0'') = Some mt \<and>
           (\<forall>i. (148, 168, 148) =
              (saturate8 (px (g i) * lum_weight params_ex + px (d0 i) * rgb_multipliers params_ex ! 2 + of_int (- mt)),
               saturate8 (px (g i) * lum_weight params_ex + px (d1 i) * rgb_multipliers params_ex ! 1 + of_int (- mt)),
               saturate8 (px (g i) * lum_weight params_ex + px (d2 i) * rgb_multipliers params_ex ! 0 + of_int (- mt)))))"
proof -
  have c: "chromatic_tail_only params_ex \<noteq> ''true''" by (simp add: params_ex_def)
  show ?thesis
    using load_config_ex c generate_ex
      direct_mode_channel_mapping [OF load_config_ex c generate_ex]
    by simp
qed

text \<open>
  C6. In chromatic-tail mode (\<open>chromatic_tail_only\<close> is \<^verbatim>\<open>'true'\<close>), whenever
  \<^verbatim>\<open>generate_base_images\<close> returns a motion image \<open>m\<close>, there are tail images \<open>tb\<close>, \<open>tg\<close>,
  \<open>tr\<close> whose samples are \<open>max 0 (diff[0] - diff[1])\<close>, \<open>max 0 (diff[1] - diff[0])\<close> and
  \<open>max 0 (diff[2] - diff[1])\<close> (a negative difference becomes 0, none wraps around), and
  every pixel of \<open>m\<close> is the blend of direct mode with the tails in place of the diffs:
  blue from \<open>tb\<close> and multiplier 2, green from \<open>tg\<close> and multiplier 1, red from \<open>tr\<close> and
  multiplier 0.
\<close>

theorem chromatic_tail_saturating:
  assumes "chromatic_tail_only p = ''true''"
    and "generate_base_images resize cvtColor cap frame_num p = Inr (s, Some m)"
  shows "\<exists>r e d0 d1 d2 g tb tg tr.
           read_frames resize cap frame_num p = Inr r \<and>
           process_frames cvtColor p engine_init (collected r) = Inr e \<and>
           diffs e = Some (d0, d1, d2) \<and> gray e = Some g \<and>
           (\<forall>i. int (unat (tb i)) = max 0 (int (unat (d0 i)) - int (unat (d1 i)))) \<and>
           (\<forall>i. int (unat (tr i)) = max 0 (int (unat (d2 i)) - int (unat (d1 i)))) \<and>
           (\<forall>i. int (unat (tg i)) = max 0 (int (unat (d1 i)) - int (unat (d0 i)))) \<and>
           (\<forall>i. m i =
              (saturate8 (px (g i) * lum_weight p + px (tb i) * rgb_multipliers p ! 2 + of_int (motion_threshold p)),
               saturate8 (px (g i) * lum_weight p + px (tg i) * rgb_multipliers p ! 1 + of_int (motion_threshold p)),
               saturate8 (px (g i) * lum_weight p + px (tr i) * rgb_multipliers p ! 0 + of_int (motion_threshold p))))"
proof -
  from generate_Some [OF assms(2)]
  obtain r e ds g where r: "read_frames resize cap frame_num p = Inr r"
    and e: "process_frames cvtColor p engine_init (collected r) = Inr e"
    and ds: "diffs e = Some ds" and g: "gray e = Some g"
    and mi: "motion_image p ds g = Inr m" by blast
  obtain d0 d1 d2 where d: "ds = (d0, d1, d2)" by (cases ds)
  let ?tb = "subtract d0 d1" and ?tg = "subtract d1 d0" and ?tr = "subtract d2 d1"
  have m: "m = merge (addWeighted g (lum_weight p) ?tb (rgb_multipliers p ! 2) (of_int (motion_threshold p)))
                  (addWeighted g (lum_weight p) ?tg (rgb_multipliers p ! 1) (of_int (motion_threshold p)))
                  (addWeighted g (lum_weight p) ?tr (rgb_multipliers p ! 0) (of_int (motion_threshold p)))"
    using motion_image_Inr_eq [OF mi [unfolded d]] assms(1) by simp
  have px: "\<forall>i. m i =
              (saturate8 (px (g i) * lum_weight p + px (?tb i) * rgb_multipliers p ! 2 + of_int (motion_threshold p)),
               saturate8 (px (g i) * lum_weight p + px (?tg i) * rgb_multipliers p ! 1 + of_int (motion_threshold p)),
               saturate8 (px (g i) * lum_weight p + px (?tr i) * rgb_multipliers p ! 0 + of_int (motion_threshold p)))"
    unfolding m by (simp add: merge_def addWeighted_def)
  have t: "\<forall>i. int (unat (?tb i)) = max 0 (int (unat (d0 i)) - int (unat (d1 i)))"
    "\<forall>i. int (unat (?tr i)) = max 0 (int (unat (d2 i)) - int (unat (d1 i)))"
    "\<forall>i. int (unat (?tg i)) = max 0 (int (unat (d1 i)) - int (unat (d0 i)))"
    by (intro allI subtract_saturates)+
  show ?thesis
    using r e ds [unfolded d] g t px by blast
qed

lemma generate_chroma_ex:
  "generate_base_images resize_ex cvt_ex cap_ex 9 (params_ex\<lparr>chromatic_tail_only := ''true''\<rparr>) =
     Inr (Some 90, Some (\<lambda>i. (88, 128, 108)))"
proof -
  have rf: "read_frames resize_ex cap_ex 9 (params_ex\<lparr>chromatic_tail_only := ''true''\<rparr>) =
     Inr \<lparr>collected = [30, 50, 70, 90], read_count = 7, idx = 10, attempts = 7\<rparr>"
    by (simp add: read_frames_def start_frame_of_def params_ex_def cap_ex_def read_loop.simps
        cap_read_def read_step_def scaled_def and_then_def Let_def)
  show ?thesis
    unfolding generate_base_images_def rf
    by (simp add: start_frame_of_def params_ex_def cap_ex_def process_frame_def engine_init_def
        update_prev_frames_def cvt_ex_def absdiff_def subtract_def motion_image_def blend_def index_def
        addWeighted_def merge_def saturate8_def cvRound_def px_def Let_def)
qed

theorem chromatic_tail_saturating_witness:
  "chromatic_tail_only (params_ex\<lparr>chromatic_tail_only := ''true''\<rparr>) = ''true'' \<and>
   generate_base_images resize_ex cvt_ex cap_ex 9 (params_ex\<lparr>chromatic_tail_only := ''true''\<rparr>) =
     Inr (Some 90, Some (\<lambda>i. (88, 128, 108))) \<and>
   (\<exists>r e d0 d1 d2 g tb tg tr.
           read_frames resize_ex cap_ex 9 (params_ex\<lparr>chromatic_tail_only := ''true''\<rparr>) = Inr r \<and>
           process_frames cvt_ex (params_ex\<lparr>chromatic_tail_only := ''true''\<rparr>) engine_init (collected r) = Inr e \<and>
           diffs e = Some (d0, d1, d2) \<and> gray e = Some g \<and>
           (\<forall>i. int (unat (tb i)) = max 0 (int (unat (d0 i)) - int (unat (d1 i)))) \<and>
           (\<forall>i. int (unat (tr i)) = max 0 (int (unat (d2 i)) - int (unat (d1 i)))) \<and>
           (\<forall>i. int (unat (tg i)) = max 0 (int (unat (d1 i)) - int (unat (d0 i)))) \<and>
           (\<forall>i. (88, 128, 108) =
              (saturate8 (px (g i) * 1 + px (tb i) * 3 + of_int (- 2)),
               saturate8 (px (g i) * 1 + px (tg i) * 2 + of_int (- 2)),
               saturate8 (px (g i) * 1 + px (tr i) * 1 + of_int (- 2)))))"
proof -
  have c: "chromatic_tail_only (params_ex\<lparr>chromatic_tail_only := ''true''\<rparr>) = ''true''" by simp
  have f: "lum_weight (params_ex\<lparr>chromatic_tail_only := ''true''\<rparr>) = 1"
    "rgb_multipliers (params_ex\<lparr>chromatic_tail_only := ''true''\<rparr>) ! 2 = 3"
    "rgb_multipliers (params_ex\<lparr>chromatic_tail_only := ''true''\<rparr>) ! 1 = 2"
    "rgb_multipliers (params_ex\<lparr>chromatic_tail_only := ''true''\<rparr>) ! 0 = 1"
    "motion_threshold (params_ex\<lparr>chromatic_tail_only := ''true''\<rparr>) = - 2"
    by (simp_all add: params_ex_def)
  show ?thesis
    using c generate_chroma_ex chromatic_tail_saturating [OF c generate_chroma_ex]
    unfolding f by blast
qed

lemma read_frames_window:
  assumes skip: "0 \<le> frame_skip p"
    and fw: "frame_window p = base_frame_window p * (frame_skip p + 1)"
  shows "(\<exists>r. read_frames resize cap frame_num p = Inr r \<and>
           map Inr (collected r) =
             map (\<lambda>k. scaled resize p (frames cap ! (nat (start_frame_of frame_num p) + k)))
               (filter (\<lambda>k. int k mod (frame_skip p + 1) = 0) [0..<nat (read_count r)]) \<and>
           read_count r =
             max 0 (min (min (frame_count cap) (int (length (frames cap))) - start_frame_of frame_num p)
                        ((base_frame_window p - 1) * (frame_skip p + 1) + 1)) \<and>
           int (length (collected r)) \<le> max 0 (base_frame_window p) \<and>
           read_count r \<le> int (length (collected r)) * (frame_skip p + 1) \<and>
           (base_frame_window p \<le> int (length (collected r)) \<or>
            min (frame_count cap) (int (length (frames cap))) \<le> idx r)) \<or>
         (read_frames resize cap frame_num p = Inl CvError \<and>
          (\<exists>k. int k mod (frame_skip p + 1) = 0 \<and>
               nat (start_frame_of frame_num p) + k < length (frames cap) \<and>
               int k \<le> (base_frame_window p - 1) * (frame_skip p + 1) \<and>
               scaled resize p (frames cap ! (nat (start_frame_of frame_num p) + k)) = Inl CvError))"
proof -
  let ?s = "frame_skip p + 1" and ?bn = "base_frame_window p"
  let ?st = "start_frame_of frame_num p"
  let ?TL = "min (frame_count cap) (int (length (frames cap)))"
  have step: "1 \<le> ?s" using skip by simp
  from read_frames_spec [OF skip, of resize cap frame_num]
  consider (returns) r where "read_frames resize cap frame_num p = Inr r"
      "read_inv resize cap p ?s ?bn (frame_count cap) ?st r"
      "?bn \<le> int (length (collected r)) \<or> ?TL \<le> idx r \<or> frame_window p + 10 < read_count r"
    | (raises) k where "read_frames resize cap frame_num p = Inl CvError"
      "int k mod ?s = 0" "nat ?st + k < length (frames cap)" "int k \<le> (?bn - 1) * ?s"
      "scaled resize p (frames cap ! (nat ?st + k)) = Inl CvError"
    by (elim disjE exE conjE) blast+
  then show ?thesis
  proof cases
    case returns
    note r = returns(1) and inv = returns(2) and fin3 = returns(3)
    let ?c = "int (length (collected r))" and ?rc = "read_count r"
    from inv have rc0: "0 \<le> ?rc" and idx: "idx r = ?st + ?rc"
      and coll: "map Inr (collected r) = map (\<lambda>k. scaled resize p (frames cap ! (nat ?st + k)))
                     (filter (\<lambda>k. int k mod ?s = 0) [0..<nat ?rc])"
      and av: "?rc = 0 \<or> ?st + ?rc \<le> ?TL"
      and lo: "?c * ?s - ?s < ?rc" and hi: "?rc \<le> ?c * ?s"
      and top: "?rc \<le> max 0 ((?bn - 1) * ?s + 1)"
      unfolding read_inv_def by blast+
    have c0: "0 \<le> ?c" by simp
    have cap_free: "\<not> frame_window p + 10 < ?rc \<or> ?bn \<le> ?c"
    proof (cases "0 \<le> ?bn")
      case True
      have "(?bn - 1) * ?s + 1 \<le> ?bn * ?s" using step by (simp add: algebra_simps)
      moreover have "0 \<le> ?bn * ?s" using True step by simp
      ultimately have "?rc \<le> ?bn * ?s" using top by simp
      then show ?thesis using fw by simp
    next
      case False
      then show ?thesis by simp
    qed
    with fin3 have fin: "?bn \<le> ?c \<or> ?TL \<le> idx r" by blast
    have av': "?rc = 0 \<or> ?rc \<le> ?TL - ?st" using av by auto
    have fin': "?bn \<le> ?c \<or> ?TL - ?st \<le> ?rc" using fin idx by auto
    have rc: "?rc = max 0 (min (?TL - ?st) ((?bn - 1) * ?s + 1))"
      by (rule read_count_closed_form [OF step lo hi top av' rc0 fin'])
    have cmax: "?c \<le> max 0 ?bn"
      by (rule collected_at_most [OF step c0 lo top])
    show ?thesis
      using r coll rc cmax hi fin by blast
  next
    case raises
    show ?thesis
      by (rule disjI2, rule conjI [OF raises(1)], rule exI [of _ k])
         (simp only: raises simp_thms)
  qed
qed

subsection \<open>Claims about the window and the result\<close>





text \<open>
  C1, as amended. For a capture that opened, whose frames below the reported count all
  decode, a valid frame index \<open>frame_num\<close>, \<open>base_frame_window \<ge> 2\<close> and at least
  \<open>base_frame_window * (frame_skip + 1)\<close> frames, \<^verbatim>\<open>generate_base_images\<close> returns a static and
  a motion image, neither of them \<^verbatim>\<open>None\<close>, provided line 99 can scale every frame of the
  capture (\<open>scale_factor\<close> is 1.0, or \<^verbatim>\<open>cv2.resize\<close> succeeds on the frames) and the parameters
  are well-formed: \<open>frame_skip \<ge> 0\<close>, the \<open>frame_window\<close> that \<^verbatim>\<open>load_config\<close> computes, and
  three \<open>rgb_multipliers\<close>.
\<close>

theorem generate_returns_images:
  assumes "isOpened cap" and "2 \<le> base_frame_window p"
    and "0 \<le> frame_num" and "frame_num < frame_count cap"
    and "base_frame_window p * (frame_skip p + 1) \<le> frame_count cap"
    and "frame_count cap \<le> int (length (frames cap))"
    and "0 \<le> frame_skip p"
    and "frame_window p = base_frame_window p * (frame_skip p + 1)"
    and "3 \<le> length (rgb_multipliers p)"
    and "\<forall>f\<in>set (frames cap). scaled resize p f \<noteq> Inl CvError"
  shows "\<exists>s m. generate_base_images resize cvtColor cap frame_num p = Inr (Some s, Some m)"
proof -
  let ?s = "frame_skip p + 1" and ?bn = "base_frame_window p" and ?T = "frame_count cap"
  let ?st = "start_frame_of frame_num p"
  have step: "1 \<le> ?s" using assms(7) by simp
  have TL: "min ?T (int (length (frames cap))) = ?T" using assms(6) by simp
  have no_raise: "scaled resize p (frames cap ! (nat ?st + k)) \<noteq> Inl CvError"
    if "nat ?st + k < length (frames cap)" for k
    using assms(10) that nth_mem by blast
  from read_frames_window [OF assms(7,8), of resize cap frame_num] no_raise
  obtain r where r: "read_frames resize cap frame_num p = Inr r"
    and rc: "read_count r = max 0 (min (?T - ?st) ((?bn - 1) * ?s + 1))"
    and hi: "read_count r \<le> int (length (collected r)) * ?s"
    unfolding TL by blast
  have X: "1 * ?s \<le> (?bn - 1) * ?s"
    using assms(2) step by (intro mult_right_mono) auto
  have st: "?st = max 0 (frame_num - (?bn - 1) * ?s)"
    by (simp add: start_frame_of_def Let_def)
  have st_le: "?st \<le> frame_num" using st X step assms(3) by simp
  have "2 * ?s \<le> ?bn * ?s"
    using assms(2) step by (intro mult_right_mono) auto
  then have T2: "?s + 1 \<le> ?T" using assms(5) step by simp
  have A: "?s + 1 \<le> ?T - ?st"
  proof (cases "frame_num - (?bn - 1) * ?s \<le> 0")
    case True
    then have "?st = 0" using st by simp
    then show ?thesis using T2 by simp
  next
    case False
    then have "?st = frame_num - (?bn - 1) * ?s" using st by simp
    then show ?thesis using X assms(4) by simp
  qed
  have B: "?s + 1 \<le> (?bn - 1) * ?s + 1" using X by simp
  have "?s + 1 \<le> read_count r" unfolding rc using A B by simp
  with hi have "1 * ?s < int (length (collected r)) * ?s" by simp
  then have "1 < int (length (collected r))"
    using step by (simp only: mult_less_cancel_right)
  then have two: "2 \<le> length (collected r)" by simp
  have pos: "0 < ?T" using assms(3,4) by simp
  have inr: "?st \<le> ?T - 1" using st_le assms(4) by simp
  show ?thesis
    by (rule generate_enough [OF assms(1) pos inr r two assms(9)])
qed

theorem generate_returns_images_witness:
  "isOpened cap_sized \<and> 2 \<le> base_frame_window (params_ex\<lparr>scale_factor := 1 / 2\<rparr>) \<and>
   (0::int) \<le> 9 \<and> 9 < frame_count cap_sized \<and>
   base_frame_window (params_ex\<lparr>scale_factor := 1 / 2\<rparr>) *
     (frame_skip (params_ex\<lparr>scale_factor := 1 / 2\<rparr>) + 1) \<le> frame_count cap_sized \<and>
   frame_count cap_sized \<le> int (length (frames cap_sized)) \<and>
   0 \<le> frame_skip (params_ex\<lparr>scale_factor := 1 / 2\<rparr>) \<and>
   3 \<le> length (rgb_multipliers (params_ex\<lparr>scale_factor := 1 / 2\<rparr>)) \<and>
   scaled resize_sized (params_ex\<lparr>scale_factor := 1 / 2\<rparr>) (4, 4, 90) = Inr (2, 2, 90) \<and>
   (\<exists>s m. generate_base_images resize_sized cvt_sized cap_sized 9
            (params_ex\<lparr>scale_factor := 1 / 2\<rparr>) = Inr (Some s, Some m))"
proof -
  let ?p = "params_ex\<lparr>scale_factor := 1 / 2\<rparr>"
  have h: "isOpened cap_sized" "2 \<le> base_frame_window ?p" "(0::int) \<le> 9" "9 < frame_count cap_sized"
   "base_frame_window ?p * (frame_skip ?p + 1) \<le> frame_count cap_sized"
   "frame_count cap_sized \<le> int (length (frames cap_sized))" "0 \<le> frame_skip ?p"
   "frame_window ?p = base_frame_window ?p * (frame_skip ?p + 1)"
   "3 \<le> length (rgb_multipliers ?p)"
    by (simp_all add: params_ex_def cap_sized_def)
  have sc: "\<forall>f\<in>set (frames cap_sized). scaled resize_sized ?p f \<noteq> Inl CvError"
    by (simp add: cap_sized_def scaled_def resize_sized_def cvRound_def)
  have one: "scaled resize_sized ?p (4, 4, 90) = Inr (2, 2, 90)"
    by (simp add: scaled_def resize_sized_def cvRound_def)
  show ?thesis
    using h one generate_returns_images [OF h sc, of cvt_sized] by blast
qed

text \<open>
  The claim as stated fails: with \<open>scale_factor = 0.01\<close> on 4 by 4 frames the target size
  of \<^verbatim>\<open>cv2.resize\<close> is empty, line 99 raises, and no image is returned although every
  condition of the claim holds.
\<close>

theorem generate_returns_images_counterexample:
  "isOpened cap_sized \<and> 2 \<le> base_frame_window (params_ex\<lparr>scale_factor := 1 / 100\<rparr>) \<and>
   (0::int) \<le> 9 \<and> 9 < frame_count cap_sized \<and>
   base_frame_window (params_ex\<lparr>scale_factor := 1 / 100\<rparr>) *
     (frame_skip (params_ex\<lparr>scale_factor := 1 / 100\<rparr>) + 1) \<le> frame_count cap_sized \<and>
   frame_count cap_sized = int (length (frames cap_sized)) \<and>
   0 \<le> frame_skip (params_ex\<lparr>scale_factor := 1 / 100\<rparr>) \<and>
   frame_window (params_ex\<lparr>scale_factor := 1 / 100\<rparr>) =
     base_frame_window (params_ex\<lparr>scale_factor := 1 / 100\<rparr>) *
       (frame_skip (params_ex\<lparr>scale_factor := 1 / 100\<rparr>) + 1) \<and>
   length (rgb_multipliers (params_ex\<lparr>scale_factor := 1 / 100\<rparr>)) = 3 \<and>
   resize_sized (1 / 100) (4, 4, 30) = None \<and>
   generate_base_images resize_sized cvt_sized cap_sized 9 (params_ex\<lparr>scale_factor := 1 / 100\<rparr>) =
     Inl CvError"
proof -
  have rs: "resize_sized (1 / 100) (4, 4, 30) = None"
    by (simp add: resize_sized_def cvRound_def)
  have rf: "read_frames resize_sized cap_sized 9 (params_ex\<lparr>scale_factor := 1 / 100\<rparr>) = Inl CvError"
    by (simp add: read_frames_def start_frame_of_def params_ex_def cap_sized_def read_loop.simps
        cap_read_def read_step_def scaled_def rs and_then_def Let_def)
  have g: "generate_base_images resize_sized cvt_sized cap_sized 9 (params_ex\<lparr>scale_factor := 1 / 100\<rparr>) =
     Inl CvError"
    unfolding generate_base_images_def rf
    by (simp add: start_frame_of_def params_ex_def cap_sized_def)
  show ?thesis
    using rs g by (simp add: params_ex_def cap_sized_def)
qed







end
